theory Spec2Isabelle
  imports Complex_Main "HOL-Library.Word" "HOL-Library.AList"
begin

section \<open>Clap counter service: the relational (D1) worker and the key-value (KV) worker\<close>

text \<open>
  The repository holds two workers with the same HTTP surface.  The relational one
  keeps two SQL tables (\<open>claps\<close>, \<open>rate_limits\<close>) and sends its two upserts to
  the store in one batch; the key-value one (\<open>worker.js\<close>) keeps counters and
  rate-limit records as values of one key-value namespace and updates them by
  get followed by put.  Both are embedded below, function by function.

  Conventions.  A JavaScript string is a \<open>string\<close>; every character the slug
  pattern accepts is ASCII, so the way other characters are counted never
  changes a result.  \<open>Date.now()\<close> is an \<open>int\<close> (milliseconds).  A JavaScript
  number is a \<open>jsnum\<close>: a finite value (every finite double is a real number)
  or one of the three non-finite values.  \<open>Math.floor\<close>, \<open>Math.min\<close> and
  \<open>Math.max\<close> are exact on doubles, and sums of integers below \<open>2^53\<close> are
  exact, so the arithmetic below is the arithmetic of the program on those
  values; the rounding of sums of fractions is not modelled.
\<close>

subsection \<open>JavaScript numbers\<close>

datatype jsnum = Fin real | PosInf | NegInf | NaN

subsection \<open>Constants and slug validation (both workers)\<close>

definition RATE_LIMIT_WINDOW_MS :: int where
  "RATE_LIMIT_WINDOW_MS = 60 * 60 * 1000"

definition DEBOUNCE_MS :: int where
  "DEBOUNCE_MS = 500"

definition MAX_SLUG_LEN :: nat where
  "MAX_SLUG_LEN = 200"

text \<open>The character classes of \<open>SLUG_RE = /^[a-z0-9][a-z0-9._:'\-]*$/\<close>.\<close>

definition slug_first :: "char \<Rightarrow> bool" where
  "slug_first c = (c \<in> set ''abcdefghijklmnopqrstuvwxyz0123456789'')"

definition slug_rest :: "char \<Rightarrow> bool" where
  "slug_rest c = (slug_first c \<or> c \<in> set [CHR ''.'', CHR ''_'', CHR '':'', CHR 0x27, CHR ''-''])"

text \<open>\<open>SLUG_RE.test(slug)\<close>: one character of the first class, then any number of
  the second class, up to the end of the string (no \<open>m\<close> flag: \<open>$\<close> is the end).\<close>

fun SLUG_RE_test :: "string \<Rightarrow> bool" where
  "SLUG_RE_test [] = False"
| "SLUG_RE_test (c # cs) = (slug_first c \<and> list_all slug_rest cs)"

text \<open>
  \<^verbatim>\<open>function isValidSlug(slug) {
    if (!slug || slug.length > MAX_SLUG_LEN) return false;
    return SLUG_RE.test(slug);
  }\<close>
\<close>

definition isValidSlug :: "string \<Rightarrow> bool" where
  "isValidSlug slug =
     (if slug = [] \<or> length slug > MAX_SLUG_LEN then False else SLUG_RE_test slug)"

subsection \<open>Relational worker: configuration and the increment amount\<close>

text \<open>
  The environment of the relational worker.  \<open>MAX_CLAPS_PER_IP\<close> and
  \<open>MAX_CLAPS_PER_REQUEST\<close> hold the value of \<open>parseInt(env.X, 10)\<close>, which is an
  integer or \<open>NaN\<close> (\<open>None\<close>; also what an unset variable gives).
\<close>

record env =
  ALLOWED_ORIGINS :: "string option"
  IP_HASH_SALT :: "string option"
  MAX_CLAPS_PER_IP :: "int option"
  MAX_CLAPS_PER_REQUEST :: "int option"

text \<open>\<open>parseInt(..., 10) || d\<close>: \<open>NaN\<close> and \<open>0\<close> are falsy.\<close>

definition or_default :: "int option \<Rightarrow> int \<Rightarrow> int" where
  "or_default p d = (case p of None \<Rightarrow> d | Some k \<Rightarrow> if k = 0 then d else k)"

definition getMaxClapsPerIp :: "env \<Rightarrow> int" where
  "getMaxClapsPerIp e = or_default (MAX_CLAPS_PER_IP e) 50"

definition getMaxClapsPerRequest :: "env \<Rightarrow> int" where
  "getMaxClapsPerRequest e = or_default (MAX_CLAPS_PER_REQUEST e) 10"

text \<open>
  \<^verbatim>\<open>let requested = 1;
  try {
    const body = await c.req.json();
    const n = Number(body?.count);
    if (Number.isFinite(n)) requested = n;
  } catch {}\<close>
  The body of a request is \<open>None\<close> when \<open>c.req.json()\<close> throws and \<open>Some n\<close>
  otherwise, \<open>n\<close> being the value of \<open>Number(body?.count)\<close> (\<open>NaN\<close> for a missing
  count or one that is no number).  \<open>Number.isFinite(n)\<close> holds of the values
  \<open>Fin r\<close> and of no other.
\<close>

fun requested_of :: "jsnum option \<Rightarrow> real" where
  "requested_of None = 1"
| "requested_of (Some (Fin r)) = r"
| "requested_of (Some n) = 1"

text \<open>\<^verbatim>\<open>Math.min(Math.max(Math.floor(requested), 1), getMaxClapsPerRequest(c.env))\<close>\<close>

definition incrementBy :: "env \<Rightarrow> jsnum option \<Rightarrow> int" where
  "incrementBy e body = min (max \<lfloor>requested_of body\<rfloor> 1) (getMaxClapsPerRequest e)"

text \<open>\<^verbatim>\<open>Math.floor(now / RATE_LIMIT_WINDOW_MS) * RATE_LIMIT_WINDOW_MS\<close>; the quotient of
  two integers below \<open>2^53\<close> is floored exactly, which is \<open>div\<close> on \<open>int\<close>.\<close>

definition windowStart :: "int \<Rightarrow> int" where
  "windowStart now = (now div RATE_LIMIT_WINDOW_MS) * RATE_LIMIT_WINDOW_MS"

subsection \<open>Relational worker: origins, client identity\<close>

text \<open>\<open>String.prototype.split\<close> with a one-character separator.\<close>

fun split_on :: "char \<Rightarrow> string \<Rightarrow> string list" where
  "split_on sep [] = [[]]"
| "split_on sep (c # cs) =
     (if c = sep then [] # split_on sep cs
      else (case split_on sep cs of [] \<Rightarrow> [[c]] | p # ps \<Rightarrow> (c # p) # ps))"

text \<open>\<open>String.prototype.trim\<close>, on the ASCII white space characters.\<close>

definition is_ws :: "char \<Rightarrow> bool" where
  "is_ws c = (c \<in> set [CHR '' '', CHR 0x09, CHR 0x0A, CHR 0x0B, CHR 0x0C, CHR 0x0D])"

definition trim :: "string \<Rightarrow> string" where
  "trim s = rev (dropWhile is_ws (rev (dropWhile is_ws s)))"

text \<open>
  \<^verbatim>\<open>const origins = env.ALLOWED_ORIGINS || '';
  const set = new Set(origins.split(',').map(o => o.trim()).filter(Boolean));\<close>
  The \<open>WeakMap\<close> in front of it only caches this value per environment object.
\<close>

definition getAllowedOrigins :: "string option \<Rightarrow> string set" where
  "getAllowedOrigins origins =
     set (filter (\<lambda>x. x \<noteq> []) (map trim (split_on CHR '','' (case origins of None \<Rightarrow> [] | Some s \<Rightarrow> s))))"

text \<open>\<open>Number.prototype.toString(16)\<close> on a non-negative integer, and
  \<open>String.prototype.padStart\<close> with a one-character filler.\<close>

definition hexdigit :: "nat \<Rightarrow> char" where
  "hexdigit d = ''0123456789abcdef'' ! d"

fun toString16 :: "nat \<Rightarrow> string" where
  "toString16 n = (if n < 16 then [hexdigit n] else toString16 (n div 16) @ [hexdigit (n mod 16)])"

declare toString16.simps [simp del]

definition padStart :: "nat \<Rightarrow> char \<Rightarrow> string \<Rightarrow> string" where
  "padStart k c s = replicate (k - length s) c @ s"

text \<open>
  \<^verbatim>\<open>async function sha256Hex(env, input) {
    const salt = env.IP_HASH_SALT || '';
    const data = new TextEncoder().encode(salt + ':' + input);
    const hash = await crypto.subtle.digest('SHA-256', data);
    return [...new Uint8Array(hash)].map(b => b.toString(16).padStart(2, '0')).join('');
  }\<close>
  The platform's \<open>crypto.subtle.digest('SHA-256', new TextEncoder().encode(s))\<close> is the
  parameter \<open>digest\<close>, from a string to the bytes of its hash.
\<close>

definition salt_of :: "env \<Rightarrow> string" where
  "salt_of e = (case IP_HASH_SALT e of None \<Rightarrow> [] | Some s \<Rightarrow> s)"

definition hex_bytes :: "8 word list \<Rightarrow> string" where
  "hex_bytes bs = concat (map (\<lambda>b. padStart 2 CHR ''0'' (toString16 (unat b))) bs)"

definition sha256Hex :: "(string \<Rightarrow> 8 word list) \<Rightarrow> env \<Rightarrow> string \<Rightarrow> string" where
  "sha256Hex digest e input = hex_bytes (digest (salt_of e @ '':'' @ input))"

subsection \<open>Relational worker: requests, tables and statements\<close>

text \<open>What a handler reads of a request: the route parameter, the \<open>Origin\<close> and
  \<open>CF-Connecting-IP\<close> headers (\<open>None\<close> when absent), the body as described above,
  and the value \<open>Date.now()\<close> returns while the request is handled.\<close>

record request =
  req_slug :: string
  req_origin :: "string option"
  req_ip :: "string option"
  req_body :: "jsnum option"
  req_now :: int

text \<open>\<^verbatim>\<open>c.req.header('CF-Connecting-IP') || '0.0.0.0'\<close>\<close>

definition getClientIp :: "string option \<Rightarrow> string" where
  "getClientIp h = (case h of None \<Rightarrow> ''0.0.0.0'' | Some ip \<Rightarrow> if ip = [] then ''0.0.0.0'' else ip)"

text \<open>The responses \<open>c.json(...)\<close> builds, and their HTTP status.\<close>

datatype response =
    InvalidSlug
  | Forbidden
  | TooFast
  | RateLimitExceeded
  | Success int
  | Count int

fun status :: "response \<Rightarrow> nat" where
  "status InvalidSlug = 400"
| "status Forbidden = 403"
| "status TooFast = 429"
| "status RateLimitExceeded = 429"
| "status (Success n) = 200"
| "status (Count n) = 200"

text \<open>
  The tables of \<open>migrations/0001_init.sql\<close>.  \<open>claps\<close> has the primary key \<open>slug\<close>;
  \<open>rate_limits\<close> has the primary key \<open>(ip_hash, slug, window_start)\<close> and is kept
  as the list of its rows in row order, the key in front.  SQLite integers are
  not bounded here.
\<close>

record claps_row =
  c_count :: int
  c_updated_at :: int

record rl_row =
  rl_count :: int
  rl_updated_at :: int

type_synonym rl_key = "string \<times> string \<times> int"

type_synonym rl_table = "(rl_key \<times> rl_row) list"

text \<open>The calls made on \<open>env.DB\<close>, in order: the trace of the store's use.\<close>

datatype db_call = SelectCount string | Batch rl_key string | DeleteOld int

record d1_state =
  claps :: "string \<rightharpoonup> claps_row"
  rate_limits :: rl_table
  lastRequestTime :: "string \<rightharpoonup> int"
  db_calls :: "db_call list"

text \<open>
  \<^verbatim>\<open>INSERT INTO rate_limits (ip_hash, slug, window_start, count, updated_at)
  VALUES (?1, ?2, ?3, ?4, ?5)
  ON CONFLICT(ip_hash, slug, window_start) DO UPDATE SET
    count = rate_limits.count + excluded.count,
    updated_at = excluded.updated_at
  WHERE rate_limits.count + excluded.count <= ?6\<close>
  The result is the table and \<open>meta.changes\<close>.  Without a conflicting row the row
  is inserted; the \<open>WHERE\<close> belongs to \<open>DO UPDATE\<close> and is evaluated on a conflict only.
\<close>

definition rateLimitStmt :: "rl_key \<Rightarrow> int \<Rightarrow> int \<Rightarrow> int \<Rightarrow> rl_table \<Rightarrow> rl_table \<times> nat" where
  "rateLimitStmt key amount now cap tbl =
     (case map_of tbl key of
        None \<Rightarrow> (tbl @ [(key, \<lparr>rl_count = amount, rl_updated_at = now\<rparr>)], 1)
      | Some r \<Rightarrow>
          if rl_count r + amount \<le> cap
          then (AList.update key \<lparr>rl_count = rl_count r + amount, rl_updated_at = now\<rparr> tbl, 1)
          else (tbl, 0))"

text \<open>
  \<^verbatim>\<open>INSERT INTO claps (slug, count, updated_at)
  VALUES (?1, ?2, ?3)
  ON CONFLICT(slug) DO UPDATE SET
    count = claps.count + excluded.count,
    updated_at = excluded.updated_at
  RETURNING count\<close>
  The result is the table and the returned count.
\<close>

definition clapsStmt :: "string \<Rightarrow> int \<Rightarrow> int \<Rightarrow> (string \<rightharpoonup> claps_row) \<Rightarrow> (string \<rightharpoonup> claps_row) \<times> int" where
  "clapsStmt slug amount now tbl =
     (let c = (case tbl slug of None \<Rightarrow> amount | Some r \<Rightarrow> c_count r + amount)
      in (tbl(slug \<mapsto> \<lparr>c_count = c, c_updated_at = now\<rparr>), c))"

text \<open>
  \<^verbatim>\<open>const [rateLimitResult, clapsResult] = await c.env.DB.batch([rateLimitStmt, clapsStmt]);\<close>
  The store runs the statements of a batch in order, as one transaction; neither
  statement can fail on these tables, so both run.  The result is
  \<open>rateLimitResult.meta.changes\<close>, the count \<open>clapsResult\<close> returns, and the state.
\<close>

definition batch :: "rl_key \<Rightarrow> int \<Rightarrow> int \<Rightarrow> int \<Rightarrow> d1_state \<Rightarrow> nat \<times> int \<times> d1_state" where
  "batch key amount now cap s =
     (let (rl', changes) = rateLimitStmt key amount now cap (rate_limits s);
          (claps', returned) = clapsStmt (fst (snd key)) amount now (claps s)
      in (changes, returned,
          s\<lparr>claps := claps', rate_limits := rl',
            db_calls := db_calls s @ [Batch key (fst (snd key))]\<rparr>))"

subsection \<open>Relational worker: the handlers\<close>

text \<open>\<open>row?.count ?? 0\<close> on the row of a slug.\<close>

definition count_of :: "(string \<rightharpoonup> claps_row) \<Rightarrow> string \<Rightarrow> int" where
  "count_of tbl slug = (case tbl slug of None \<Rightarrow> 0 | Some r \<Rightarrow> c_count r)"

text \<open>\<open>GET /claps/:slug\<close>.\<close>

definition d1_get :: "d1_state \<Rightarrow> string \<Rightarrow> response \<times> d1_state" where
  "d1_get s slug =
     (if \<not> isValidSlug slug then (InvalidSlug, s)
      else (Count (count_of (claps s) slug), s\<lparr>db_calls := db_calls s @ [SelectCount slug]\<rparr>))"

text \<open>\<open>lastRequestTime.get(debounceKey) || 0\<close>.\<close>

definition lastTime_of :: "(string \<rightharpoonup> int) \<Rightarrow> string \<Rightarrow> int" where
  "lastTime_of m k = (case m k of None \<Rightarrow> 0 | Some t \<Rightarrow> if t = 0 then 0 else t)"

text \<open>The key \<^verbatim>\<open>`${ipHash}:${slug}`\<close> of the debounce map.\<close>

definition debounceKey :: "(string \<Rightarrow> 8 word list) \<Rightarrow> env \<Rightarrow> request \<Rightarrow> string" where
  "debounceKey digest e r = sha256Hex digest e (getClientIp (req_ip r)) @ '':'' @ req_slug r"

text \<open>
  \<open>POST /claps/:slug\<close>, in the order of the source: slug, origin, debounce (which
  records the time of every request it lets through), the amount and the
  window, the batch of both upserts, and only then the look at
  \<open>rateLimitResult.meta.changes\<close>.
\<close>

definition d1_post :: "(string \<Rightarrow> 8 word list) \<Rightarrow> env \<Rightarrow> d1_state \<Rightarrow> request \<Rightarrow> response \<times> d1_state" where
  "d1_post digest e s r =
     (if \<not> isValidSlug (req_slug r) then (InvalidSlug, s)
      else case req_origin r of
        None \<Rightarrow> (Forbidden, s)
      | Some origin \<Rightarrow>
          if origin = [] then (Forbidden, s)
          else if origin \<notin> getAllowedOrigins (ALLOWED_ORIGINS e) then (Forbidden, s)
          else
            let ipHash = sha256Hex digest e (getClientIp (req_ip r));
                key = debounceKey digest e r;
                now = req_now r
            in if now - lastTime_of (lastRequestTime s) key < DEBOUNCE_MS then (TooFast, s)
               else
                 let s1 = s\<lparr>lastRequestTime := (lastRequestTime s)(key \<mapsto> now)\<rparr>;
                     amount = incrementBy e (req_body r);
                     (changes, returned, s2) =
                        batch (ipHash, req_slug r, windowStart now) amount now (getMaxClapsPerIp e) s1
                 in if changes = 0 then (RateLimitExceeded, s2) else (Success returned, s2))"

subsection \<open>Relational worker: the scheduled compaction\<close>

text \<open>
  \<^verbatim>\<open>async scheduled(event, env) {
    const cutoff = Date.now() - (2 * 60 * 60 * 1000);
    const BATCH_SIZE = 1000;
    while (true) {
      const result = await env.DB.prepare(`
        DELETE FROM rate_limits
        WHERE rowid IN (
          SELECT rowid FROM rate_limits
          WHERE window_start < ?1
          ORDER BY window_start
          LIMIT ?2
        )
      `).bind(cutoff, BATCH_SIZE).run();
      if (result.meta.changes < BATCH_SIZE) break;
    }
  }\<close>
  A row is named by its primary key, which stands for its \<open>rowid\<close>.  Among rows
  of equal \<open>window_start\<close> the store is free to order as it likes; here they keep
  their table order.
\<close>

definition BATCH_SIZE :: nat where
  "BATCH_SIZE = 1000"

definition window_start_of :: "rl_key \<times> rl_row \<Rightarrow> int" where
  "window_start_of row = snd (snd (fst row))"

text \<open>The inner \<open>SELECT\<close>.\<close>

definition selectOld :: "int \<Rightarrow> nat \<Rightarrow> rl_table \<Rightarrow> rl_key list" where
  "selectOld cutoff n tbl =
     take n (map fst (sort_key window_start_of (filter (\<lambda>row. window_start_of row < cutoff) tbl)))"

text \<open>The \<open>DELETE\<close>: the remaining table and \<open>meta.changes\<close>.\<close>

definition deleteStmt :: "int \<Rightarrow> nat \<Rightarrow> rl_table \<Rightarrow> rl_table \<times> nat" where
  "deleteStmt cutoff n tbl =
     (let tbl' = filter (\<lambda>row. fst row \<notin> set (selectOld cutoff n tbl)) tbl
      in (tbl', length tbl - length tbl'))"

text \<open>The \<open>while (true)\<close> loop: the final table and the \<open>meta.changes\<close> of every
  statement it ran, in order.\<close>

function compact_loop :: "int \<Rightarrow> rl_table \<Rightarrow> rl_table \<times> nat list" where
  "compact_loop cutoff tbl =
     (let (tbl', changes) = deleteStmt cutoff BATCH_SIZE tbl
      in if changes < BATCH_SIZE then (tbl', [changes])
         else (let (t, cs) = compact_loop cutoff tbl' in (t, changes # cs)))"
  by pat_completeness auto
termination
  apply (relation "measure (\<lambda>(cutoff, tbl). length tbl)")
   apply simp
  apply (auto simp: deleteStmt_def Let_def BATCH_SIZE_def)
  done

declare compact_loop.simps [simp del]

definition scheduled :: "int \<Rightarrow> d1_state \<Rightarrow> d1_state \<times> nat list" where
  "scheduled now s =
     (let cutoff = now - (2 * 60 * 60 * 1000);
          (tbl, cs) = compact_loop cutoff (rate_limits s)
      in (s\<lparr>rate_limits := tbl, db_calls := db_calls s @ map (\<lambda>c. DeleteOld cutoff) cs\<rparr>, cs))"

text \<open>Everything that acts on the relational worker's state, and runs of it.\<close>

datatype d1_op = OpGet string | OpPost request | OpScheduled int

fun d1_apply :: "(string \<Rightarrow> 8 word list) \<Rightarrow> env \<Rightarrow> d1_state \<Rightarrow> d1_op \<Rightarrow> d1_state" where
  "d1_apply digest e s (OpGet slug) = snd (d1_get s slug)"
| "d1_apply digest e s (OpPost r) = snd (d1_post digest e s r)"
| "d1_apply digest e s (OpScheduled now) = fst (scheduled now s)"

definition d1_run :: "(string \<Rightarrow> 8 word list) \<Rightarrow> env \<Rightarrow> d1_state \<Rightarrow> d1_op list \<Rightarrow> d1_state" where
  "d1_run digest e s ops = foldl (d1_apply digest e) s ops"

text \<open>The responses of a sequence of \<open>POST\<close> requests handled one after the other.\<close>

fun d1_posts :: "(string \<Rightarrow> 8 word list) \<Rightarrow> env \<Rightarrow> d1_state \<Rightarrow> request list \<Rightarrow> response list \<times> d1_state" where
  "d1_posts digest e s [] = ([], s)"
| "d1_posts digest e s (r # rs) =
     (let (resp, s') = d1_post digest e s r;
          (resps, s'') = d1_posts digest e s' rs
      in (resp # resps, s''))"

subsection \<open>Key-value worker (\<open>worker.js\<close>)\<close>

text \<open>
  \<^verbatim>\<open>const RATE_LIMIT_WINDOW_MS = 60 * 60 * 1000; // 1 hour
  const MAX_CLAPS_PER_IP = 50; // Max claps per IP per window\<close>
  The window length is the constant above.
\<close>

definition KV_MAX_CLAPS_PER_IP :: real where
  "KV_MAX_CLAPS_PER_IP = 50"

text \<open>
  The body of a request to the key-value worker: \<open>c.req.json()\<close> throws
  (\<open>NoJson\<close>), gives \<open>null\<close> (\<open>JsonNull\<close>), or gives a value with a property
  \<open>count\<close> that is a number, or with none (\<open>Json\<close>).  A \<open>count\<close> of another type
  is not part of this model.
\<close>

datatype kv_body = NoJson | JsonNull | Json "jsnum option"

record kv_request =
  kq_slug :: string
  kq_origin :: "string option"
  kq_ip :: "string option"
  kq_body :: kv_body
  kq_now :: int

text \<open>\<^verbatim>\<open>Math.min(Math.max(body.count || 1, 1), 10)\<close> on a \<open>count\<close> that is absent or a
  number: \<open>undefined\<close>, \<open>0\<close> and \<open>NaN\<close> are falsy.\<close>

fun kv_incrementBy :: "jsnum option \<Rightarrow> real" where
  "kv_incrementBy None = 1"
| "kv_incrementBy (Some (Fin r)) = min (max (if r = 0 then 1 else r) 1) 10"
| "kv_incrementBy (Some PosInf) = 10"
| "kv_incrementBy (Some NegInf) = 1"
| "kv_incrementBy (Some NaN) = 1"

text \<open>
  The namespace \<open>BLOG_CLAPS\<close>.  Keys \<open>claps:...\<close> hold the text of a number, keys
  \<open>rl:...\<close> hold the JSON text of \<open>{count, start}\<close>; no key has both prefixes, so
  the store is kept as one map for each.  A \<open>get\<close> returns what the last \<open>put\<close>
  stored (the store's replication delay and the \<open>expirationTtl\<close> of two hours,
  after which the handler would start a new window anyway, are not modelled).
\<close>

record rlData =
  rd_count :: real
  rd_start :: int

datatype kv_call = KvGet string | KvPut string

record kv_store =
  kv_claps :: "string \<rightharpoonup> real"
  kv_rl :: "string \<rightharpoonup> rlData"
  kv_calls :: "kv_call list"

definition getClapKey :: "string \<Rightarrow> string" where
  "getClapKey slug = ''claps:'' @ slug"

definition getRateLimitKey :: "string \<Rightarrow> string \<Rightarrow> string" where
  "getRateLimitKey ip slug = ''rl:'' @ ip @ '':'' @ slug"

text \<open>\<^verbatim>\<open>parseInt(count || '0', 10)\<close> on the stored text of a number \<open>x\<close> (written by
  \<open>x.toString()\<close>): its integer part, for the magnitudes a counter takes (the
  text has no exponent below \<open>10^21\<close>).\<close>

definition parseInt_stored :: "real option \<Rightarrow> int" where
  "parseInt_stored v = (case v of None \<Rightarrow> 0 | Some x \<Rightarrow> if x < 0 then \<lceil>x\<rceil> else \<lfloor>x\<rfloor>)"

datatype kv_response =
    KvInvalidSlug
  | KvForbidden
  | KvServerError
  | KvRateLimitExceeded
  | KvSuccess real
  | KvCount int

fun kv_status :: "kv_response \<Rightarrow> nat" where
  "kv_status KvInvalidSlug = 400"
| "kv_status KvForbidden = 403"
| "kv_status KvServerError = 500"
| "kv_status KvRateLimitExceeded = 429"
| "kv_status (KvSuccess n) = 200"
| "kv_status (KvCount n) = 200"

text \<open>\<open>GET /claps/:slug\<close>.\<close>

definition kv_get :: "kv_store \<Rightarrow> string \<Rightarrow> kv_response \<times> kv_store" where
  "kv_get st slug =
     (if \<not> isValidSlug slug then (KvInvalidSlug, st)
      else (KvCount (parseInt_stored (kv_claps st (getClapKey slug))),
            st\<lparr>kv_calls := kv_calls st @ [KvGet (getClapKey slug)]\<rparr>))"

text \<open>
  \<^verbatim>\<open>if (!rlData || (now - rlData.start > RATE_LIMIT_WINDOW_MS)) {
    rlData = { count: 0, start: now };
  }\<close>
\<close>

definition current_window :: "int \<Rightarrow> rlData option \<Rightarrow> rlData" where
  "current_window now d =
     (case d of
        None \<Rightarrow> \<lparr>rd_count = 0, rd_start = now\<rparr>
      | Some x \<Rightarrow> if now - rd_start x > RATE_LIMIT_WINDOW_MS then \<lparr>rd_count = 0, rd_start = now\<rparr> else x)"

text \<open>
  \<open>POST /claps/:slug\<close> is suspended at every \<open>await\<close> on the store, and other
  requests run in between.  A request in flight is a \<open>kv_proc\<close>: not started;
  holding the answer of \<open>get(rlKey)\<close>; past \<open>put(rlKey)\<close>; holding the count read
  by \<open>get(key)\<close>; or answered.  \<open>kv_step\<close> runs it up to and including its next
  call on the store.  A body \<open>null\<close> makes \<open>body.count\<close> throw, which the framework
  answers with status 500.
\<close>

datatype kv_proc =
    Start kv_request
  | GotRl kv_request real "rlData option"
  | PutRl kv_request real
  | GotCount kv_request real int
  | Done kv_response

fun kv_step :: "string option \<Rightarrow> kv_store \<Rightarrow> kv_proc \<Rightarrow> kv_store \<times> kv_proc" where
  "kv_step origins st (Start r) =
     (if \<not> isValidSlug (kq_slug r) then (st, Done KvInvalidSlug)
      else if (case kq_origin r of None \<Rightarrow> False
               | Some origin \<Rightarrow> origin \<noteq> [] \<and> origin \<notin> getAllowedOrigins origins)
      then (st, Done KvForbidden)
      else case kq_body r of
        JsonNull \<Rightarrow> (st, Done KvServerError)
      | NoJson \<Rightarrow>
          (let rlKey = getRateLimitKey (getClientIp (kq_ip r)) (kq_slug r)
           in (st\<lparr>kv_calls := kv_calls st @ [KvGet rlKey]\<rparr>,
               GotRl r (kv_incrementBy (Some (Fin 1))) (kv_rl st rlKey)))
      | Json c \<Rightarrow>
          (let rlKey = getRateLimitKey (getClientIp (kq_ip r)) (kq_slug r)
           in (st\<lparr>kv_calls := kv_calls st @ [KvGet rlKey]\<rparr>,
               GotRl r (kv_incrementBy c) (kv_rl st rlKey))))"
| "kv_step origins st (GotRl r amount d) =
     (let rlKey = getRateLimitKey (getClientIp (kq_ip r)) (kq_slug r);
          rlData = current_window (kq_now r) d
      in if rd_count rlData + amount > KV_MAX_CLAPS_PER_IP then (st, Done KvRateLimitExceeded)
         else (st\<lparr>kv_rl := (kv_rl st)(rlKey \<mapsto> rlData\<lparr>rd_count := rd_count rlData + amount\<rparr>),
                  kv_calls := kv_calls st @ [KvPut rlKey]\<rparr>,
               PutRl r amount))"
| "kv_step origins st (PutRl r amount) =
     (let key = getClapKey (kq_slug r)
      in (st\<lparr>kv_calls := kv_calls st @ [KvGet key]\<rparr>,
          GotCount r amount (parseInt_stored (kv_claps st key))))"
| "kv_step origins st (GotCount r amount currentCount) =
     (let key = getClapKey (kq_slug r);
          newCount = real_of_int currentCount + amount
      in (st\<lparr>kv_claps := (kv_claps st)(key \<mapsto> newCount),
             kv_calls := kv_calls st @ [KvPut key]\<rparr>,
          Done (KvSuccess newCount)))"
| "kv_step origins st (Done resp) = (st, Done resp)"

text \<open>One request handled alone, from its start to its answer: the handler as
  the source reads, top to bottom.\<close>

definition kv_post :: "string option \<Rightarrow> kv_store \<Rightarrow> kv_request \<Rightarrow> kv_response \<times> kv_store" where
  "kv_post origins st r =
     (if \<not> isValidSlug (kq_slug r) then (KvInvalidSlug, st)
      else if (case kq_origin r of None \<Rightarrow> False
               | Some origin \<Rightarrow> origin \<noteq> [] \<and> origin \<notin> getAllowedOrigins origins)
      then (KvForbidden, st)
      else if kq_body r = JsonNull then (KvServerError, st)
      else
        let amount = (case kq_body r of Json c \<Rightarrow> kv_incrementBy c | _ \<Rightarrow> kv_incrementBy (Some (Fin 1)));
            rlKey = getRateLimitKey (getClientIp (kq_ip r)) (kq_slug r);
            now = kq_now r;
            st1 = st\<lparr>kv_calls := kv_calls st @ [KvGet rlKey]\<rparr>;
            rlData = current_window now (kv_rl st rlKey)
        in if rd_count rlData + amount > KV_MAX_CLAPS_PER_IP then (KvRateLimitExceeded, st1)
           else
             let st2 = st1\<lparr>kv_rl := (kv_rl st1)(rlKey \<mapsto> rlData\<lparr>rd_count := rd_count rlData + amount\<rparr>),
                          kv_calls := kv_calls st1 @ [KvPut rlKey]\<rparr>;
                 key = getClapKey (kq_slug r);
                 currentCount = parseInt_stored (kv_claps st2 key);
                 newCount = real_of_int currentCount + amount
             in (KvSuccess newCount,
                 st2\<lparr>kv_claps := (kv_claps st2)(key \<mapsto> newCount),
                     kv_calls := kv_calls st2 @ [KvGet key, KvPut key]\<rparr>))"

text \<open>Requests in flight together: the schedule names, step by step, the request
  that runs next; \<open>step\<close> is the step function of either worker.\<close>

fun interleave :: "('st \<Rightarrow> 'p \<Rightarrow> 'st \<times> 'p) \<Rightarrow> nat list \<Rightarrow> 'st \<times> 'p list \<Rightarrow> 'st \<times> 'p list" where
  "interleave step [] cfg = cfg"
| "interleave step (i # sched) (st, ps) =
     (if i < length ps
      then (let (st', p') = step st (ps ! i) in interleave step sched (st', ps[i := p']))
      else interleave step sched (st, ps))"

subsection \<open>Relational worker: requests in flight together\<close>

text \<open>
  The relational \<open>POST\<close> handler touches shared state twice: the debounce map,
  between \<open>await sha256Hex\<close> and \<open>await c.req.json()\<close>, and the store, in the
  batch.  A request in flight is not started, past the debounce, or answered
  (the request is kept with the answer).  The requests run in one instance of
  the worker, on one debounce map.
\<close>

datatype d1_proc = D1Start request | D1Admitted request | D1Done request response

fun d1_step :: "(string \<Rightarrow> 8 word list) \<Rightarrow> env \<Rightarrow> d1_state \<Rightarrow> d1_proc \<Rightarrow> d1_state \<times> d1_proc" where
  "d1_step digest e s (D1Start r) =
     (if \<not> isValidSlug (req_slug r) then (s, D1Done r InvalidSlug)
      else case req_origin r of
        None \<Rightarrow> (s, D1Done r Forbidden)
      | Some origin \<Rightarrow>
          if origin = [] then (s, D1Done r Forbidden)
          else if origin \<notin> getAllowedOrigins (ALLOWED_ORIGINS e) then (s, D1Done r Forbidden)
          else
            let key = debounceKey digest e r;
                now = req_now r
            in if now - lastTime_of (lastRequestTime s) key < DEBOUNCE_MS then (s, D1Done r TooFast)
               else (s\<lparr>lastRequestTime := (lastRequestTime s)(key \<mapsto> now)\<rparr>, D1Admitted r))"
| "d1_step digest e s (D1Admitted r) =
     (let ipHash = sha256Hex digest e (getClientIp (req_ip r));
          now = req_now r;
          amount = incrementBy e (req_body r);
          (changes, returned, s2) =
             batch (ipHash, req_slug r, windowStart now) amount now (getMaxClapsPerIp e) s
      in if changes = 0 then (s2, D1Done r RateLimitExceeded) else (s2, D1Done r (Success returned)))"
| "d1_step digest e s (D1Done r resp) = (s, D1Done r resp)"



subsection \<open>Example configurations\<close>

definition env0 :: env where
  "env0 = \<lparr>ALLOWED_ORIGINS = Some ''https://blog.example, https://b.dev'',
           IP_HASH_SALT = Some ''pepper'', MAX_CLAPS_PER_IP = None, MAX_CLAPS_PER_REQUEST = None\<rparr>"

definition d1_empty :: d1_state where
  "d1_empty = \<lparr>claps = Map.empty, rate_limits = [], lastRequestTime = Map.empty, db_calls = []\<rparr>"

text \<open>A request for ten claps on \<open>my-post\<close> at time \<open>t\<close>.\<close>

definition post_at :: "int \<Rightarrow> request" where
  "post_at t = \<lparr>req_slug = ''my-post'', req_origin = Some ''https://b.dev'',
                req_ip = Some ''203.0.113.7'', req_body = Some (Fin 10), req_now = t\<rparr>"

text \<open>A state with four rate-limit rows, of the windows starting at hours 0, 4, 1 and 5.\<close>

definition d1_example :: d1_state where
  "d1_example =
     \<lparr>claps = [''my-post'' \<mapsto> \<lparr>c_count = 31, c_updated_at = 18000500\<rparr>],
      rate_limits =
        [((''c1'', ''my-post'', 0), \<lparr>rl_count = 10, rl_updated_at = 1000\<rparr>),
         ((''c1'', ''my-post'', 14400000), \<lparr>rl_count = 10, rl_updated_at = 14400900\<rparr>),
         ((''c2'', ''my-post'', 3600000), \<lparr>rl_count = 1, rl_updated_at = 3600400\<rparr>),
         ((''c2'', ''my-post'', 18000000), \<lparr>rl_count = 10, rl_updated_at = 18000500\<rparr>)],
      lastRequestTime = Map.empty,
      db_calls = []\<rparr>"

definition kv_empty :: kv_store where
  "kv_empty = \<lparr>kv_claps = Map.empty, kv_rl = Map.empty, kv_calls = []\<rparr>"

text \<open>A request to the key-value worker for \<open>c\<close> claps on \<open>my-post\<close> at time \<open>t\<close>.\<close>

definition kv_post_at :: "real \<Rightarrow> string \<Rightarrow> int \<Rightarrow> kv_request" where
  "kv_post_at c ip t = \<lparr>kq_slug = ''my-post'', kq_origin = Some ''https://b.dev'',
                   kq_ip = Some ip, kq_body = Json (Some (Fin c)), kq_now = t\<rparr>"

text \<open>The configuration \<open>env0\<close> with a window ceiling of five claps.\<close>

definition env_low :: env where
  "env_low = env0\<lparr>MAX_CLAPS_PER_IP := Some 5\<rparr>"

definition origins0 :: "string option" where
  "origins0 = Some ''https://blog.example, https://b.dev''"

section \<open>Properties\<close>

subsection \<open>Evaluation of the examples\<close>

lemma valid_my_post: "isValidSlug ''my-post''"
  by (simp add: isValidSlug_def MAX_SLUG_LEN_def slug_first_def slug_rest_def)

lemma origin_allowed0: "''https://b.dev'' \<in> getAllowedOrigins (Some ''https://blog.example, https://b.dev'')"
  by (simp add: getAllowedOrigins_def trim_def is_ws_def)

lemma env0_simps:
  "ALLOWED_ORIGINS env0 = Some ''https://blog.example, https://b.dev''"
  "getMaxClapsPerIp env0 = 50" "getMaxClapsPerRequest env0 = 10"
  by (simp_all add: env0_def getMaxClapsPerIp_def getMaxClapsPerRequest_def or_default_def)

lemma env_low_simps:
  "ALLOWED_ORIGINS env_low = Some ''https://blog.example, https://b.dev''"
  "getMaxClapsPerIp env_low = 5" "getMaxClapsPerRequest env_low = 10"
  by (simp_all add: env_low_def env0_def getMaxClapsPerIp_def getMaxClapsPerRequest_def or_default_def)

lemma post_at_simps:
  "req_slug (post_at t) = ''my-post''" "req_origin (post_at t) = Some ''https://b.dev''"
  "req_ip (post_at t) = Some ''203.0.113.7''" "req_body (post_at t) = Some (Fin 10)"
  "req_now (post_at t) = t"
  by (simp_all add: post_at_def)

lemma kv_post_at_simps:
  "kq_slug (kv_post_at c ip t) = ''my-post''" "kq_origin (kv_post_at c ip t) = Some ''https://b.dev''"
  "kq_ip (kv_post_at c ip t) = Some ip" "kq_body (kv_post_at c ip t) = Json (Some (Fin c))"
  "kq_now (kv_post_at c ip t) = t"
  by (simp_all add: kv_post_at_def)

lemmas d1_eval = d1_post_def env0_simps env_low_simps post_at_simps valid_my_post origin_allowed0
  Let_def lastTime_of_def DEBOUNCE_MS_def debounceKey_def getClientIp_def incrementBy_def
  windowStart_def RATE_LIMIT_WINDOW_MS_def batch_def rateLimitStmt_def clapsStmt_def d1_empty_def
  count_of_def

lemmas kv_eval = kv_post_at_simps valid_my_post origins0_def origin_allowed0 kv_empty_def Let_def
  current_window_def KV_MAX_CLAPS_PER_IP_def parseInt_stored_def getClientIp_def
  getRateLimitKey_def getClapKey_def RATE_LIMIT_WINDOW_MS_def

subsection \<open>Slug validation comes first\<close>

lemma isValidSlug_iff:
  "isValidSlug slug \<longleftrightarrow> slug \<noteq> [] \<and> length slug \<le> 200 \<and> SLUG_RE_test slug"
  by (auto simp: isValidSlug_def MAX_SLUG_LEN_def)

text \<open>
  Claim C10.  A slug that is empty, longer than 200 characters or not matched by
  the pattern is answered with the invalid-slug error, status 400, by the read
  and the increment endpoint of both workers, and the state that comes back is
  the state that went in: tables, key-value maps, debounce map, and the trace
  of calls on the store, so nothing was read or written.
\<close>

theorem invalid_slug_rejected_before_storage:
  assumes "slug = [] \<or> 200 < length slug \<or> \<not> SLUG_RE_test slug"
  shows "d1_get s slug = (InvalidSlug, s) \<and>
         d1_post digest e s (r\<lparr>req_slug := slug\<rparr>) = (InvalidSlug, s) \<and>
         kv_get st slug = (KvInvalidSlug, st) \<and>
         kv_post origins st (q\<lparr>kq_slug := slug\<rparr>) = (KvInvalidSlug, st) \<and>
         status InvalidSlug = 400 \<and> kv_status KvInvalidSlug = 400"
proof -
  from assms have "\<not> isValidSlug slug"
    by (auto simp: isValidSlug_iff)
  then show ?thesis
    by (simp add: d1_get_def d1_post_def kv_get_def kv_post_def)
qed

lemma capital_not_matched: "\<not> SLUG_RE_test ''My Post''"
  by (simp add: slug_first_def)

text \<open>The slug \<open>My Post\<close> (a capital and a space) at all four endpoints.\<close>

theorem invalid_slug_rejected_before_storage_witness:
  "d1_get d1_empty ''My Post'' = (InvalidSlug, d1_empty) \<and>
   d1_post (\<lambda>x. []) env0 d1_empty ((post_at 0)\<lparr>req_slug := ''My Post''\<rparr>) = (InvalidSlug, d1_empty) \<and>
   kv_get kv_empty ''My Post'' = (KvInvalidSlug, kv_empty) \<and>
   kv_post origins0 kv_empty ((kv_post_at 1 ''203.0.113.7'' 0)\<lparr>kq_slug := ''My Post''\<rparr>)
     = (KvInvalidSlug, kv_empty)"
  using invalid_slug_rejected_before_storage [of "''My Post''" d1_empty "\<lambda>x. []" env0 "post_at 0"
      kv_empty origins0 "kv_post_at 1 ''203.0.113.7'' 0"]
    capital_not_matched
  by simp

subsection \<open>The increment amount\<close>

lemma incrementBy_in_range:
  "1 \<le> getMaxClapsPerRequest e \<Longrightarrow>
     1 \<le> incrementBy e body \<and> incrementBy e body \<le> getMaxClapsPerRequest e"
  by (simp add: incrementBy_def)

text \<open>The relational worker on the amounts the specification lists, for a
  per-request ceiling between 3 and 999 (the default is 10).\<close>

lemma incrementBy_examples:
  assumes "3 \<le> getMaxClapsPerRequest e" "getMaxClapsPerRequest e \<le> 999"
  shows "incrementBy e (Some (Fin 0)) = 1" "incrementBy e (Some (Fin (- 5))) = 1"
    "incrementBy e (Some (Fin 999)) = getMaxClapsPerRequest e" "incrementBy e (Some (Fin 3.7)) = 3"
    "incrementBy e None = 1" "incrementBy e (Some NaN) = 1"
  using assms by (simp_all add: incrementBy_def)

lemma kv_incrementBy_in_range: "1 \<le> kv_incrementBy c \<and> kv_incrementBy c \<le> 10"
  by (cases c rule: kv_incrementBy.cases) simp_all

text \<open>
  Claim C3.  The amount applied is an integer of \<open>[1, R]\<close>, a fraction being
  floored: 3.7 becomes 3.  The relational worker does this
  (\<open>incrementBy_in_range\<close>, \<open>incrementBy_examples\<close>).  The key-value worker clamps
  without flooring: a request for 3.7 claps is applied as 3.7, and 3.7 is what
  the counter holds afterwards.
\<close>

theorem kv_fraction_is_not_floored:
  "kv_incrementBy (Some (Fin 3.7)) = 3.7 \<and>
   fst (kv_post origins0 kv_empty (kv_post_at 3.7 ''203.0.113.7'' 1000)) = KvSuccess 3.7 \<and>
   kv_claps (snd (kv_post origins0 kv_empty (kv_post_at 3.7 ''203.0.113.7'' 1000))) ''claps:my-post''
     = Some 3.7 \<and>
   incrementBy env0 (Some (Fin 3.7)) = 3"
  by (simp add: kv_post_def kv_eval incrementBy_def env0_simps)

subsection \<open>Admission and the counter\<close>

text \<open>In the relational worker a request the limiter rejects has already been
  counted: the batch ran both upserts.\<close>

lemma d1_rejected_is_counted:
  assumes "fst (d1_post digest e s r) = RateLimitExceeded"
  shows "count_of (claps (snd (d1_post digest e s r))) (req_slug r)
         = count_of (claps s) (req_slug r) + incrementBy e (req_body r)"
  using assms
  by (auto simp: d1_post_def Let_def batch_def clapsStmt_def count_of_def
      split: if_splits option.splits prod.splits)

text \<open>In the key-value worker a rejected request leaves the counters alone.\<close>

lemma kv_rejected_leaves_counters:
  assumes "fst (kv_post origins st q) = KvRateLimitExceeded"
  shows "kv_claps (snd (kv_post origins st q)) = kv_claps st"
    and "kv_rl (snd (kv_post origins st q)) = kv_rl st"
  using assms
  by (auto simp: kv_post_def Let_def split: if_splits)

text \<open>
  Claim C1.  A request the rate limiter rejects must leave the counter of its
  resource as it was.  In the relational worker it does not: six requests for
  ten claps, one second apart in one window, from one client on one post; the
  first five are accepted, the sixth is answered "rate limit exceeded", and the
  counter stands at 60.
\<close>

theorem d1_rejected_request_increments_counter:
  "fst (d1_posts digest env0 d1_empty (map post_at [1000, 2000, 3000, 4000, 5000, 6000]))
     = [Success 10, Success 20, Success 30, Success 40, Success 50, RateLimitExceeded] \<and>
   count_of (claps (snd (d1_posts digest env0 d1_empty
       (map post_at [1000, 2000, 3000, 4000, 5000, 6000])))) ''my-post'' = 60"
  by (simp add: d1_eval)

subsection \<open>The ceiling of a window\<close>

lemma rateLimitStmt_rejected:
  "snd (rateLimitStmt key amount now cap tbl) = 0 \<Longrightarrow> fst (rateLimitStmt key amount now cap tbl) = tbl"
  by (simp add: rateLimitStmt_def split: option.splits if_splits)

text \<open>
  Claim C2.  The stored count of a window never exceeds the configured ceiling,
  the first insert included.  The condition of the upsert guards the update of
  an existing row only: with a ceiling of 5 and the default of 10 claps per
  request, the first request of a window for ten claps is accepted and its row
  holds 10.
\<close>

theorem d1_first_insert_exceeds_ceiling:
  "getMaxClapsPerIp env_low = 5 \<and>
   fst (d1_post digest env_low d1_empty (post_at 1000)) = Success 10 \<and>
   map (\<lambda>row. rl_count (snd row)) (rate_limits (snd (d1_post digest env_low d1_empty (post_at 1000))))
     = [10]"
  by (simp add: d1_eval)

subsection \<open>The window of a request\<close>

lemma window_pos: "0 < RATE_LIMIT_WINDOW_MS"
  by (simp add: RATE_LIMIT_WINDOW_MS_def)

lemma windowStart_le: "windowStart now \<le> now"
proof -
  have "now div RATE_LIMIT_WINDOW_MS * RATE_LIMIT_WINDOW_MS + now mod RATE_LIMIT_WINDOW_MS = now"
    by (rule div_mult_mod_eq)
  moreover have "0 \<le> now mod RATE_LIMIT_WINDOW_MS"
    using window_pos by (rule pos_mod_sign)
  ultimately show ?thesis unfolding windowStart_def by linarith
qed

lemma windowStart_gt: "now < windowStart now + RATE_LIMIT_WINDOW_MS"
proof -
  have "now div RATE_LIMIT_WINDOW_MS * RATE_LIMIT_WINDOW_MS + now mod RATE_LIMIT_WINDOW_MS = now"
    by (rule div_mult_mod_eq)
  moreover have "now mod RATE_LIMIT_WINDOW_MS < RATE_LIMIT_WINDOW_MS"
    using window_pos by (rule pos_mod_bound)
  ultimately show ?thesis unfolding windowStart_def by linarith
qed

lemma windowStart_unique:
  assumes "RATE_LIMIT_WINDOW_MS dvd w" "w \<le> now" "now < w + RATE_LIMIT_WINDOW_MS"
  shows "w = windowStart now"
proof -
  from assms(1) obtain k where k: "w = RATE_LIMIT_WINDOW_MS * k"
    by (auto simp: dvd_def)
  have "now div RATE_LIMIT_WINDOW_MS = k"
  proof (rule int_div_pos_eq)
    show "now = RATE_LIMIT_WINDOW_MS * k + (now - w)" using k by simp
    show "0 \<le> now - w" using assms(2) by simp
    show "now - w < RATE_LIMIT_WINDOW_MS" using assms(3) by simp
  qed
  then show ?thesis by (simp add: windowStart_def k)
qed

lemma d1_post_batch_key:
  assumes "fst (d1_post digest e s r) = RateLimitExceeded \<or> (\<exists>n. fst (d1_post digest e s r) = Success n)"
  shows "db_calls (snd (d1_post digest e s r))
           = db_calls s @ [Batch (sha256Hex digest e (getClientIp (req_ip r)), req_slug r,
                                  windowStart (req_now r)) (req_slug r)] \<and>
         rate_limits (snd (d1_post digest e s r))
           = fst (rateLimitStmt (sha256Hex digest e (getClientIp (req_ip r)), req_slug r,
                                 windowStart (req_now r))
                   (incrementBy e (req_body r)) (req_now r) (getMaxClapsPerIp e) (rate_limits s))"
  using assms
  by (auto simp: d1_post_def Let_def batch_def split: if_splits option.splits prod.splits)

lemma kv_post_window:
  assumes "fst (kv_post origins st q) = KvSuccess n"
  shows "map_option rd_start (kv_rl (snd (kv_post origins st q))
            (getRateLimitKey (getClientIp (kq_ip q)) (kq_slug q)))
         = Some (case kv_rl st (getRateLimitKey (getClientIp (kq_ip q)) (kq_slug q)) of
                   None \<Rightarrow> kq_now q
                 | Some d \<Rightarrow> if kq_now q - rd_start d > RATE_LIMIT_WINDOW_MS then kq_now q
                            else rd_start d)"
  using assms
  by (auto simp: kv_post_def Let_def current_window_def split: if_splits option.splits)

text \<open>
  Claim C4, as amended.  The window length is one hour, 3600000 milliseconds.
  In the relational worker the window of a request at time \<open>now\<close> starts at
  \<open>windowStart now\<close>, that is \<open>floor(now / W) * W\<close>: a multiple of \<open>W\<close>, at most
  \<open>now\<close>, less than \<open>W\<close> before it, and the only such instant, so the windows
  are aligned and do not overlap.  Every request that reaches the rate limiter
  runs its batch on the row of exactly that window, whatever the state holds.
  The key-value worker keeps one record per client and resource instead: its
  window starts at the time of the first request counted in it and is replaced
  once more than \<open>W\<close> has passed since.
\<close>

theorem window_of_request:
  "RATE_LIMIT_WINDOW_MS = 3600000 \<and>
   RATE_LIMIT_WINDOW_MS dvd windowStart now \<and> windowStart now \<le> now \<and>
   now < windowStart now + RATE_LIMIT_WINDOW_MS \<and>
   (RATE_LIMIT_WINDOW_MS dvd w \<and> w \<le> now \<and> now < w + RATE_LIMIT_WINDOW_MS \<longrightarrow> w = windowStart now) \<and>
   (fst (d1_post digest e s r) = RateLimitExceeded \<or> (\<exists>n. fst (d1_post digest e s r) = Success n) \<longrightarrow>
      db_calls (snd (d1_post digest e s r))
        = db_calls s @ [Batch (sha256Hex digest e (getClientIp (req_ip r)), req_slug r,
                               windowStart (req_now r)) (req_slug r)] \<and>
      rate_limits (snd (d1_post digest e s r))
        = fst (rateLimitStmt (sha256Hex digest e (getClientIp (req_ip r)), req_slug r,
                              windowStart (req_now r))
                (incrementBy e (req_body r)) (req_now r) (getMaxClapsPerIp e) (rate_limits s))) \<and>
   (fst (kv_post origins st q) = KvSuccess n \<longrightarrow>
      map_option rd_start (kv_rl (snd (kv_post origins st q))
            (getRateLimitKey (getClientIp (kq_ip q)) (kq_slug q)))
         = Some (case kv_rl st (getRateLimitKey (getClientIp (kq_ip q)) (kq_slug q)) of
                   None \<Rightarrow> kq_now q
                 | Some d \<Rightarrow> if kq_now q - rd_start d > RATE_LIMIT_WINDOW_MS then kq_now q
                            else rd_start d))"
  using windowStart_le [of now] windowStart_gt [of now] windowStart_unique [of w now]
    d1_post_batch_key [of digest e s r] kv_post_window [of origins st q n]
  by (simp add: RATE_LIMIT_WINDOW_MS_def windowStart_def)

text \<open>A request at 5000000 ms: its hour starts at 3600000 ms.\<close>

theorem window_of_request_witness:
  "windowStart 5000000 = 3600000 \<and>
   fst (d1_post (\<lambda>x. []) env0 d1_empty (post_at 5000000)) = Success 10 \<and>
   db_calls (snd (d1_post (\<lambda>x. []) env0 d1_empty (post_at 5000000)))
     = [Batch ([], ''my-post'', 3600000) ''my-post''] \<and>
   fst (kv_post origins0 kv_empty (kv_post_at 1 ''203.0.113.7'' 5000000)) = KvSuccess 1 \<and>
   map_option rd_start (kv_rl (snd (kv_post origins0 kv_empty (kv_post_at 1 ''203.0.113.7'' 5000000)))
      ''rl:203.0.113.7:my-post'') = Some 5000000"
  using window_of_request [of 5000000 3600000 "\<lambda>x. []" env0 d1_empty "post_at 5000000"
      origins0 kv_empty "kv_post_at 1 ''203.0.113.7'' 5000000" 1]
  by (simp add: d1_eval kv_eval kv_post_def sha256Hex_def hex_bytes_def)

text \<open>
  The claim as stated fails on the key-value worker.  A first request at
  3000000 ms opens a window that starts at 3000000, not at 0; a second request
  at 4000000 ms, in the next aligned hour, is counted in that same window.
\<close>

theorem kv_window_starts_at_first_request:
  "fst (kv_post origins0 kv_empty (kv_post_at 1 ''203.0.113.7'' 3000000)) = KvSuccess 1 \<and>
   kv_rl (snd (kv_post origins0 kv_empty (kv_post_at 1 ''203.0.113.7'' 3000000)))
      ''rl:203.0.113.7:my-post''
     = Some \<lparr>rd_count = 1, rd_start = 3000000\<rparr> \<and>
   windowStart 3000000 = 0 \<and>
   kv_rl (snd (kv_post origins0
                (snd (kv_post origins0 kv_empty (kv_post_at 1 ''203.0.113.7'' 3000000)))
                (kv_post_at 1 ''203.0.113.7'' 4000000)))
      ''rl:203.0.113.7:my-post''
     = Some \<lparr>rd_count = 2, rd_start = 3000000\<rparr> \<and>
   windowStart 4000000 = 3600000"
  by (simp add: kv_post_def kv_eval windowStart_def)

subsection \<open>The counter of a resource\<close>

lemma count_of_clapsStmt:
  "count_of (fst (clapsStmt slug amount now tbl)) x
     = (if x = slug then count_of tbl x + amount else count_of tbl x)"
  by (simp add: clapsStmt_def count_of_def Let_def split: option.splits)

lemma d1_post_claps:
  "claps (snd (d1_post digest e s r)) = claps s \<or>
   claps (snd (d1_post digest e s r))
     = fst (clapsStmt (req_slug r) (incrementBy e (req_body r)) (req_now r) (claps s))"
  by (auto simp: d1_post_def Let_def batch_def split: option.splits prod.splits)

lemma d1_apply_claps:
  "claps (d1_apply digest e s op) = claps s \<or>
   (\<exists>r. op = OpPost r \<and>
        claps (d1_apply digest e s op)
          = fst (clapsStmt (req_slug r) (incrementBy e (req_body r)) (req_now r) (claps s)))"
proof (cases op)
  case (OpGet slug)
  then show ?thesis by (simp add: d1_get_def)
next
  case (OpPost r)
  then show ?thesis using d1_post_claps [of digest e s r] by auto
next
  case (OpScheduled now)
  then show ?thesis by (simp add: scheduled_def Let_def split: prod.splits)
qed

lemma d1_apply_mono:
  assumes "1 \<le> getMaxClapsPerRequest e"
  shows "count_of (claps s) x \<le> count_of (claps (d1_apply digest e s op)) x"
proof -
  have pos: "0 \<le> incrementBy e body" for body
    using incrementBy_in_range [OF assms, of body] by simp
  from d1_apply_claps [of digest e s op] show ?thesis
  proof
    assume "claps (d1_apply digest e s op) = claps s"
    then show ?thesis by simp
  next
    assume "\<exists>r. op = OpPost r \<and> claps (d1_apply digest e s op)
          = fst (clapsStmt (req_slug r) (incrementBy e (req_body r)) (req_now r) (claps s))"
    then obtain r where "op = OpPost r" and "claps (d1_apply digest e s op)
          = fst (clapsStmt (req_slug r) (incrementBy e (req_body r)) (req_now r) (claps s))"
      by blast
    then show ?thesis using pos [of "req_body r"] by (simp add: count_of_clapsStmt)
  qed
qed

lemma d1_run_mono:
  assumes "1 \<le> getMaxClapsPerRequest e"
  shows "count_of (claps s) x \<le> count_of (claps (d1_run digest e s ops)) x"
proof (induction ops arbitrary: s)
  case Nil
  then show ?case by (simp add: d1_run_def)
next
  case (Cons op ops)
  have "count_of (claps s) x \<le> count_of (claps (d1_apply digest e s op)) x"
    by (rule d1_apply_mono [OF assms])
  also have "\<dots> \<le> count_of (claps (d1_run digest e (d1_apply digest e s op) ops)) x"
    by (rule Cons.IH)
  finally show ?case by (simp add: d1_run_def)
qed

text \<open>
  Claim C5, as amended.  In the relational worker, with a per-request ceiling
  of at least 1 (the default is 10), the count of every resource never
  decreases, over any sequence of reads, increments and compactions; and an
  operation leaves the table of counters as it was or changes it by the one
  upsert statement of an increment request, which adds the amount in the store.
  The key-value worker has no such statement: its handler reads the count, adds
  the amount and writes the sum.
\<close>

theorem d1_counter_never_decreases:
  assumes "1 \<le> getMaxClapsPerRequest e"
  shows "count_of (claps s) x \<le> count_of (claps (d1_run digest e s ops)) x \<and>
         (claps (d1_apply digest e s op) = claps s \<or>
          (\<exists>r. op = OpPost r \<and>
               claps (d1_apply digest e s op)
                 = fst (clapsStmt (req_slug r) (incrementBy e (req_body r)) (req_now r) (claps s))))"
  using d1_run_mono [OF assms, of s x digest ops] d1_apply_claps [of digest e s op]
  by blast

text \<open>Ten claps, a read, ten more claps.\<close>

theorem d1_counter_never_decreases_witness:
  "1 \<le> getMaxClapsPerRequest env0 \<and>
   count_of (claps d1_empty) ''my-post'' = 0 \<and>
   count_of (claps (d1_run (\<lambda>x. []) env0 d1_empty
       [OpPost (post_at 1000), OpGet ''my-post'', OpPost (post_at 2000)])) ''my-post'' = 20"
  using d1_counter_never_decreases [of env0 d1_empty "''my-post''" "\<lambda>x. []"
      "[OpPost (post_at 1000), OpGet ''my-post'', OpPost (post_at 2000)]" "OpGet ''my-post''"]
  by (simp add: d1_eval d1_run_def d1_get_def)

text \<open>
  The claim as stated fails on the key-value worker.  One accepted request makes
  four calls on the store, the last two a \<open>get\<close> and a \<open>put\<close> of the counter.
  And the counter can go down: a request for one clap reads the counter (absent,
  so 0), a request for ten claps then runs from start to end and leaves 10, and
  the first request writes its sum, 1.
\<close>

theorem kv_counter_read_add_write_decreases:
  "kv_calls (snd (kv_post origins0 kv_empty (kv_post_at 1 ''203.0.113.7'' 1000)))
     = [KvGet ''rl:203.0.113.7:my-post'', KvPut ''rl:203.0.113.7:my-post'',
        KvGet ''claps:my-post'', KvPut ''claps:my-post''] \<and>
   kv_claps (fst (interleave (kv_step origins0) [0, 0, 0, 1, 1, 1, 1]
       (kv_empty, [Start (kv_post_at 1 ''203.0.113.7'' 1000),
                   Start (kv_post_at 10 ''198.51.100.9'' 1000)])))
     ''claps:my-post'' = Some 10 \<and>
   kv_claps (fst (interleave (kv_step origins0) [0, 0, 0, 1, 1, 1, 1, 0]
       (kv_empty, [Start (kv_post_at 1 ''203.0.113.7'' 1000),
                   Start (kv_post_at 10 ''198.51.100.9'' 1000)])))
     ''claps:my-post'' = Some 1"
  by (simp add: kv_post_def kv_eval)

subsection \<open>Requests in flight together\<close>

text \<open>A request handled alone is the run of its steps.\<close>

lemma kv_post_is_four_steps:
  "interleave (kv_step origins) [0, 0, 0, 0] (st, [Start q])
     = (snd (kv_post origins st q), [Done (fst (kv_post origins st q))])"
  by (cases "kq_body q") (simp_all add: kv_post_def Let_def)

lemma d1_post_is_two_steps:
  "interleave (d1_step digest e) [0, 0] (s, [D1Start r])
     = (snd (d1_post digest e s r), [D1Done r (fst (d1_post digest e s r))])"
  by (simp add: d1_post_def Let_def debounceKey_def batch_def split: option.splits prod.splits)












subsection \<open>Compaction\<close>

lemma selectOld_expired:
  assumes "k \<in> set (selectOld cutoff n tbl)"
  shows "snd (snd k) < cutoff"
proof -
  from assms have "k \<in> set (map fst (sort_key window_start_of (filter (\<lambda>row. window_start_of row < cutoff) tbl)))"
    unfolding selectOld_def by (rule in_set_takeD)
  then show ?thesis by (auto simp: window_start_of_def)
qed

lemma selectOld_subset: "set (selectOld cutoff n tbl) \<subseteq> set (map fst tbl)"
proof
  fix k assume "k \<in> set (selectOld cutoff n tbl)"
  then have "k \<in> set (map fst (sort_key window_start_of (filter (\<lambda>row. window_start_of row < cutoff) tbl)))"
    unfolding selectOld_def by (rule in_set_takeD)
  then show "k \<in> set (map fst tbl)" by auto
qed

lemma selectOld_length:
  "length (selectOld cutoff n tbl) = min n (length (filter (\<lambda>row. window_start_of row < cutoff) tbl))"
  by (simp add: selectOld_def min.commute)

lemma selectOld_distinct:
  assumes "distinct (map fst tbl)"
  shows "distinct (selectOld cutoff n tbl)"
proof -
  let ?old = "filter (\<lambda>row. window_start_of row < cutoff) tbl"
  let ?ys = "map fst (sort_key window_start_of ?old)"
  have d: "distinct (map fst ?old)"
    using assms by (rule distinct_map_filter)
  have "card (set ?ys) = card (set (map fst ?old))" by simp
  also have "\<dots> = length (map fst ?old)" using d by (rule distinct_card)
  also have "\<dots> = length ?ys" by simp
  finally have "distinct ?ys" by (rule card_distinct)
  then show ?thesis unfolding selectOld_def by (rule distinct_take)
qed

lemma deleteStmt_keeps_fresh:
  "filter (\<lambda>row. \<not> window_start_of row < cutoff) (fst (deleteStmt cutoff n tbl))
     = filter (\<lambda>row. \<not> window_start_of row < cutoff) tbl"
proof -
  have "\<not> window_start_of row < cutoff \<Longrightarrow> fst row \<notin> set (selectOld cutoff n tbl)" for row
    using selectOld_expired [of "fst row" cutoff n tbl] by (auto simp: window_start_of_def)
  then show ?thesis
    by (auto simp: deleteStmt_def Let_def intro: filter_cong)
qed

lemma deleteStmt_changes:
  assumes "distinct (map fst tbl)"
  shows "snd (deleteStmt cutoff n tbl)
           = min n (length (filter (\<lambda>row. window_start_of row < cutoff) tbl))"
proof -
  let ?sel = "selectOld cutoff n tbl"
  have "length (filter (\<lambda>row. fst row \<notin> set ?sel) tbl) + length (filter (\<lambda>row. \<not> fst row \<notin> set ?sel) tbl)
          = length tbl"
    by (rule sum_length_filter_compl)
  then have "snd (deleteStmt cutoff n tbl) = length (filter (\<lambda>row. fst row \<in> set ?sel) tbl)"
    by (simp add: deleteStmt_def Let_def)
  also have "\<dots> = length (filter (\<lambda>k. k \<in> set ?sel) (map fst tbl))"
    by (simp add: filter_map comp_def)
  also have "\<dots> = card ({k. k \<in> set ?sel} \<inter> set (map fst tbl))"
    using assms by (rule distinct_length_filter)
  also have "{k. k \<in> set ?sel} \<inter> set (map fst tbl) = set ?sel"
    using selectOld_subset [of cutoff n tbl] by auto
  also have "card (set ?sel) = length ?sel"
    using selectOld_distinct [OF assms] by (rule distinct_card)
  finally show ?thesis by (simp add: selectOld_length)
qed

lemma deleteStmt_distinct:
  "distinct (map fst tbl) \<Longrightarrow> distinct (map fst (fst (deleteStmt cutoff n tbl)))"
  by (simp add: deleteStmt_def Let_def distinct_map_filter)

lemma deleteStmt_expired_left:
  assumes "distinct (map fst tbl)"
  shows "length (filter (\<lambda>row. window_start_of row < cutoff) (fst (deleteStmt cutoff n tbl)))
          = length (filter (\<lambda>row. window_start_of row < cutoff) tbl) - snd (deleteStmt cutoff n tbl)"
proof -
  let ?old = "\<lambda>row. window_start_of row < cutoff"
  let ?tbl' = "fst (deleteStmt cutoff n tbl)"
  have a: "length (filter ?old ?tbl') + length (filter (\<lambda>row. \<not> ?old row) ?tbl') = length ?tbl'"
    by (rule sum_length_filter_compl)
  have b: "length (filter ?old tbl) + length (filter (\<lambda>row. \<not> ?old row) tbl) = length tbl"
    by (rule sum_length_filter_compl)
  have c: "length ?tbl' \<le> length tbl" by (simp add: deleteStmt_def Let_def)
  have d: "snd (deleteStmt cutoff n tbl) = length tbl - length ?tbl'"
    by (simp add: deleteStmt_def Let_def)
  show ?thesis using a b c d deleteStmt_keeps_fresh [of cutoff n tbl] by simp
qed

lemma compact_loop_result:
  assumes "distinct (map fst tbl)"
  shows "compact_loop cutoff tbl
          = (filter (\<lambda>row. \<not> window_start_of row < cutoff) tbl,
             replicate (length (filter (\<lambda>row. window_start_of row < cutoff) tbl) div BATCH_SIZE) BATCH_SIZE
               @ [length (filter (\<lambda>row. window_start_of row < cutoff) tbl) mod BATCH_SIZE])"
  using assms
proof (induction cutoff tbl rule: compact_loop.induct)
  case (1 cutoff tbl)
  let ?old = "\<lambda>row. window_start_of row < cutoff"
  let ?m = "length (filter ?old tbl)"
  obtain tbl' changes where del: "deleteStmt cutoff BATCH_SIZE tbl = (tbl', changes)"
    by (cases "deleteStmt cutoff BATCH_SIZE tbl")
  have changes: "changes = min BATCH_SIZE ?m"
    using deleteStmt_changes [OF "1.prems", of cutoff BATCH_SIZE] del by simp
  have fresh: "filter (\<lambda>row. \<not> ?old row) tbl' = filter (\<lambda>row. \<not> ?old row) tbl"
    using deleteStmt_keeps_fresh [of cutoff BATCH_SIZE tbl] del by simp
  have left: "length (filter ?old tbl') = ?m - changes"
    using deleteStmt_expired_left [OF "1.prems", of cutoff BATCH_SIZE] del by simp
  show ?case
  proof (cases "changes < BATCH_SIZE")
    case True
    with changes have m: "?m < BATCH_SIZE" "changes = ?m" by simp_all
    with left have "filter ?old tbl' = []" by simp
    then have "\<forall>row \<in> set tbl'. \<not> ?old row" by (simp add: filter_empty_conv)
    then have "filter (\<lambda>row. \<not> ?old row) tbl' = tbl'" by simp
    with fresh have "tbl' = filter (\<lambda>row. \<not> ?old row) tbl" by simp
    with True m del show ?thesis
      by (subst compact_loop.simps) simp
  next
    case False
    with changes have m: "BATCH_SIZE \<le> ?m" "changes = BATCH_SIZE" by simp_all
    have dist: "distinct (map fst tbl')"
      using deleteStmt_distinct [OF "1.prems", of cutoff BATCH_SIZE] del by simp
    have IH: "compact_loop cutoff tbl'
          = (filter (\<lambda>row. \<not> ?old row) tbl',
             replicate (length (filter ?old tbl') div BATCH_SIZE) BATCH_SIZE
               @ [length (filter ?old tbl') mod BATCH_SIZE])"
      using "1.IH" [OF del [symmetric] refl False dist] .
    have pos: "0 < BATCH_SIZE" by (simp add: BATCH_SIZE_def)
    have "?m div BATCH_SIZE = Suc ((?m - BATCH_SIZE) div BATCH_SIZE)"
      using pos m(1) by (rule le_div_geq)
    moreover have "(?m - BATCH_SIZE) mod BATCH_SIZE = ?m mod BATCH_SIZE"
      using m(1) by (simp add: le_mod_geq)
    ultimately have "BATCH_SIZE # replicate (length (filter ?old tbl') div BATCH_SIZE) BATCH_SIZE
               @ [length (filter ?old tbl') mod BATCH_SIZE]
        = replicate (?m div BATCH_SIZE) BATCH_SIZE @ [?m mod BATCH_SIZE]"
      using left m(2) by simp
    with False del IH fresh m(2) show ?thesis
      by (subst compact_loop.simps) simp
  qed
qed


text \<open>The primary key of \<open>rate_limits\<close> is kept by every operation, so every table
  reached from the empty one has it.\<close>

lemma rateLimitStmt_distinct:
  assumes "distinct (map fst tbl)"
  shows "distinct (map fst (fst (rateLimitStmt key amount now cap tbl)))"
proof (cases "map_of tbl key")
  case None
  then have "key \<notin> set (map fst tbl)" by (simp add: map_of_eq_None_iff)
  with assms None show ?thesis by (simp add: rateLimitStmt_def)
next
  case (Some r)
  with assms show ?thesis by (simp add: rateLimitStmt_def distinct_update)
qed

lemma d1_post_rate_limits:
  "rate_limits (snd (d1_post digest e s r)) = rate_limits s \<or>
   rate_limits (snd (d1_post digest e s r))
     = fst (rateLimitStmt (sha256Hex digest e (getClientIp (req_ip r)), req_slug r,
                           windowStart (req_now r))
             (incrementBy e (req_body r)) (req_now r) (getMaxClapsPerIp e) (rate_limits s))"
  by (auto simp: d1_post_def Let_def batch_def split: option.splits prod.splits)

lemma scheduled_distinct:
  assumes "distinct (map fst (rate_limits s))"
  shows "distinct (map fst (rate_limits (fst (scheduled now s))))"
  using compact_loop_result [OF assms, of "now - 2 * 60 * 60 * 1000"] assms
  by (simp add: scheduled_def Let_def distinct_map_filter)

lemma d1_apply_primary_key:
  assumes "distinct (map fst (rate_limits s))"
  shows "distinct (map fst (rate_limits (d1_apply digest e s op)))"
proof (cases op)
  case (OpGet slug)
  with assms show ?thesis by (simp add: d1_get_def)
next
  case (OpPost r)
  with assms d1_post_rate_limits [of digest e s r] show ?thesis
    by (auto simp: rateLimitStmt_distinct)
next
  case (OpScheduled now)
  with scheduled_distinct [OF assms] show ?thesis by simp
qed

lemma d1_run_primary_key:
  assumes "distinct (map fst (rate_limits s))"
  shows "distinct (map fst (rate_limits (d1_run digest e s ops)))"
  using assms
proof (induction ops arbitrary: s)
  case Nil
  then show ?case by (simp add: d1_run_def)
next
  case (Cons op ops)
  from Cons.IH [OF d1_apply_primary_key [OF Cons.prems]]
  show ?case by (simp add: d1_run_def)
qed

lemma reachable_primary_key:
  "distinct (map fst (rate_limits (d1_run digest e d1_empty ops)))"
  by (rule d1_run_primary_key) (simp add: d1_empty_def)

text \<open>
  Claim C9.  On a table whose rows have distinct primary keys, a run of the
  compactor at time \<open>now\<close> leaves exactly the rows whose \<open>window_start\<close> is at or
  after the cutoff \<open>now - 2 W\<close>, unchanged and in their order, and deletes all
  others; counters and debounce map are untouched.  With \<open>m\<close> expired rows it
  runs \<open>m div 1000\<close> statements that delete 1000 rows each and then one that
  deletes the remaining \<open>m mod 1000\<close>, fewer than 1000, and stops.  The loop is a
  total function: it always ends.
\<close>

theorem compactor_deletes_exactly_expired:
  assumes "distinct (map fst (rate_limits s))"
  shows "(let cutoff = now - 2 * RATE_LIMIT_WINDOW_MS;
              m = length (filter (\<lambda>row. window_start_of row < cutoff) (rate_limits s))
          in rate_limits (fst (scheduled now s))
               = filter (\<lambda>row. cutoff \<le> window_start_of row) (rate_limits s) \<and>
             claps (fst (scheduled now s)) = claps s \<and>
             lastRequestTime (fst (scheduled now s)) = lastRequestTime s \<and>
             snd (scheduled now s) = replicate (m div 1000) 1000 @ [m mod 1000] \<and>
             db_calls (fst (scheduled now s))
               = db_calls s @ replicate (m div 1000 + 1) (DeleteOld cutoff))"
proof -
  have n: "(\<lambda>row. \<not> window_start_of row < cutoff) = (\<lambda>row. cutoff \<le> window_start_of row)" for cutoff
    by (auto simp: fun_eq_iff)
  show ?thesis
    using compact_loop_result [OF assms, of "now - 7200000"]
    by (simp add: scheduled_def Let_def n BATCH_SIZE_def RATE_LIMIT_WINDOW_MS_def map_replicate_const)
qed

text \<open>At time 20000000 the cutoff is 12800000: the rows of hours 0 and 1 go, those
  of hours 4 and 5 stay, in one statement.\<close>

theorem compactor_deletes_exactly_expired_witness:
  "distinct (map fst (rate_limits d1_example)) \<and>
   rate_limits (fst (scheduled 20000000 d1_example))
     = [((''c1'', ''my-post'', 14400000), \<lparr>rl_count = 10, rl_updated_at = 14400900\<rparr>),
        ((''c2'', ''my-post'', 18000000), \<lparr>rl_count = 10, rl_updated_at = 18000500\<rparr>)] \<and>
   snd (scheduled 20000000 d1_example) = [2]"
  using compactor_deletes_exactly_expired [of d1_example 20000000]
  by (simp add: d1_example_def RATE_LIMIT_WINDOW_MS_def window_start_of_def Let_def)

subsection \<open>The ceiling when no request can exceed it\<close>

text \<open>When the ceiling of a request is at most the ceiling of a window (as with the
  defaults, 10 and 50), the first insert cannot exceed the window's ceiling
  either, and no row ever holds more than it.\<close>

lemma set_update_subset: "set (AList.update k v al) \<subseteq> insert (k, v) (set al)"
  by (induction al) auto

lemma rateLimitStmt_ceiling:
  assumes "amount \<le> cap" and "\<forall>row \<in> set tbl. rl_count (snd row) \<le> cap"
  shows "\<forall>row \<in> set (fst (rateLimitStmt key amount now cap tbl)). rl_count (snd row) \<le> cap"
proof (cases "map_of tbl key")
  case None
  with assms show ?thesis by (simp add: rateLimitStmt_def)
next
  case (Some r)
  show ?thesis
  proof (cases "rl_count r + amount \<le> cap")
    case False
    with Some assms(2) show ?thesis by (simp add: rateLimitStmt_def)
  next
    case True
    have "set (AList.update key \<lparr>rl_count = rl_count r + amount, rl_updated_at = now\<rparr> tbl)
            \<subseteq> insert (key, \<lparr>rl_count = rl_count r + amount, rl_updated_at = now\<rparr>) (set tbl)"
      by (rule set_update_subset)
    with True Some assms(2) show ?thesis
      by (auto simp: rateLimitStmt_def)
  qed
qed

lemma compact_loop_subset: "set (fst (compact_loop cutoff tbl)) \<subseteq> set tbl"
proof (induction cutoff tbl rule: compact_loop.induct)
  case (1 cutoff tbl)
  obtain tbl' changes where del: "deleteStmt cutoff BATCH_SIZE tbl = (tbl', changes)"
    by (cases "deleteStmt cutoff BATCH_SIZE tbl")
  then have sub: "set tbl' \<subseteq> set tbl"
    by (auto simp: deleteStmt_def Let_def)
  show ?case
  proof (cases "changes < BATCH_SIZE")
    case True
    with del sub show ?thesis by (subst compact_loop.simps) simp
  next
    case False
    from "1.IH" [OF del [symmetric] refl False]
    have "set (fst (compact_loop cutoff tbl')) \<subseteq> set tbl'" .
    with False del sub show ?thesis
      by (subst compact_loop.simps) (auto split: prod.splits)
  qed
qed

lemma d1_apply_ceiling:
  assumes "getMaxClapsPerRequest e \<le> getMaxClapsPerIp e"
    and "\<forall>row \<in> set (rate_limits s). rl_count (snd row) \<le> getMaxClapsPerIp e"
  shows "\<forall>row \<in> set (rate_limits (d1_apply digest e s op)). rl_count (snd row) \<le> getMaxClapsPerIp e"
proof (cases op)
  case (OpGet slug)
  with assms(2) show ?thesis by (simp add: d1_get_def)
next
  case (OpPost r)
  have "incrementBy e (req_body r) \<le> getMaxClapsPerIp e"
    using assms(1) by (simp add: incrementBy_def)
  from rateLimitStmt_ceiling [OF this assms(2),
      of "(sha256Hex digest e (getClientIp (req_ip r)), req_slug r, windowStart (req_now r))" "req_now r"]
    assms(2) d1_post_rate_limits [of digest e s r] OpPost
  show ?thesis by auto
next
  case (OpScheduled now)
  with assms(2) compact_loop_subset [of "now - 2 * 60 * 60 * 1000" "rate_limits s"]
  show ?thesis by (auto simp: scheduled_def Let_def split: prod.splits)
qed

lemma d1_run_ceiling:
  assumes "getMaxClapsPerRequest e \<le> getMaxClapsPerIp e"
    and "\<forall>row \<in> set (rate_limits s). rl_count (snd row) \<le> getMaxClapsPerIp e"
  shows "\<forall>row \<in> set (rate_limits (d1_run digest e s ops)). rl_count (snd row) \<le> getMaxClapsPerIp e"
  using assms(2)
proof (induction ops arbitrary: s)
  case Nil
  then show ?case by (simp add: d1_run_def)
next
  case (Cons op ops)
  from Cons.IH [OF d1_apply_ceiling [OF assms(1) Cons.prems]]
  show ?case by (simp add: d1_run_def)
qed

subsection \<open>The client token\<close>

lemma hexdigit_inj:
  assumes "a < 16" "b < 16" "hexdigit a = hexdigit b"
  shows "a = b"
proof -
  have "distinct ''0123456789abcdef''" by simp
  moreover have "a < length ''0123456789abcdef''" "b < length ''0123456789abcdef''"
    using assms by simp_all
  ultimately show ?thesis
    using assms(3) unfolding hexdigit_def by (simp only: nth_eq_iff_index_eq)
qed

lemma hex_of_byte:
  assumes "n < 256"
  shows "padStart 2 CHR ''0'' (toString16 n) = [hexdigit (n div 16), hexdigit (n mod 16)]"
proof (cases "n < 16")
  case True
  then show ?thesis
    by (simp add: toString16.simps [of n] padStart_def hexdigit_def)
next
  case False
  with assms have "n div 16 < 16" by simp
  then have "toString16 (n div 16) = [hexdigit (n div 16)]"
    by (simp add: toString16.simps [of "n div 16"])
  with False show ?thesis
    by (simp add: toString16.simps [of n] padStart_def)
qed

lemma hex_of_byte_inj:
  fixes b c :: "8 word"
  assumes "padStart 2 CHR ''0'' (toString16 (unat b)) = padStart 2 CHR ''0'' (toString16 (unat c))"
  shows "b = c"
proof -
  have lb: "unat b < 256" using unsigned_less [of b] by simp
  have lc: "unat c < 256" using unsigned_less [of c] by simp
  from assms have "hexdigit (unat b div 16) = hexdigit (unat c div 16)"
    and "hexdigit (unat b mod 16) = hexdigit (unat c mod 16)"
    by (simp_all add: hex_of_byte lb lc)
  moreover have "unat b div 16 < 16" "unat c div 16 < 16" using lb lc by simp_all
  moreover have "unat b mod 16 < 16" "unat c mod 16 < 16" by simp_all
  ultimately have "unat b div 16 = unat c div 16" "unat b mod 16 = unat c mod 16"
    by (auto intro: hexdigit_inj)
  then have "unat b = unat c"
    by (metis div_mult_mod_eq)
  then show ?thesis by (simp add: word_unat_eq_iff)
qed

lemma hex_bytes_Cons:
  "hex_bytes (b # bs) = [hexdigit (unat b div 16), hexdigit (unat b mod 16)] @ hex_bytes bs"
proof -
  have "unat b < 256" using unsigned_less [of b] by simp
  then show ?thesis by (simp add: hex_bytes_def hex_of_byte)
qed

lemma hex_bytes_length: "length (hex_bytes bs) = 2 * length bs"
  by (induction bs) (simp_all add: hex_bytes_Cons, simp add: hex_bytes_def)

lemma hex_bytes_inj: "hex_bytes bs = hex_bytes cs \<Longrightarrow> bs = cs"
proof (induction bs arbitrary: cs)
  case Nil
  then have "length (hex_bytes cs) = 0" by (simp add: hex_bytes_def)
  then show ?case by (simp add: hex_bytes_length)
next
  case (Cons b bs)
  then have "length (hex_bytes cs) = length (hex_bytes (b # bs))" by simp
  then obtain c cs' where cs: "cs = c # cs'"
    by (cases cs) (simp_all add: hex_bytes_length)
  have lb: "unat b < 256" using unsigned_less [of b] by simp
  have lc: "unat c < 256" using unsigned_less [of c] by simp
  from Cons.prems cs have eq: "hexdigit (unat b div 16) = hexdigit (unat c div 16)"
      "hexdigit (unat b mod 16) = hexdigit (unat c mod 16)" "hex_bytes bs = hex_bytes cs'"
    by (simp_all add: hex_bytes_Cons)
  have "b = c"
  proof (rule hex_of_byte_inj)
    show "padStart 2 CHR ''0'' (toString16 (unat b)) = padStart 2 CHR ''0'' (toString16 (unat c))"
      using eq(1,2) by (simp add: hex_of_byte lb lc)
  qed
  moreover have "bs = cs'" using eq(3) by (rule Cons.IH)
  ultimately show ?case using cs by simp
qed

text \<open>The token is written with the digits \<open>0\<close> to \<open>9\<close> and the lowercase letters
  \<open>a\<close> to \<open>f\<close> only.\<close>

lemma hexdigit_lowercase: "d < 16 \<Longrightarrow> hexdigit d \<in> set ''0123456789abcdef''"
  unfolding hexdigit_def by (rule nth_mem) simp

lemma hex_bytes_lowercase: "set (hex_bytes bs) \<subseteq> set ''0123456789abcdef''"
proof -
  define L where "L = set ''0123456789abcdef''"
  have digit: "hexdigit d \<in> L" if "d < 16" for d
    using hexdigit_lowercase [OF that] by (simp only: L_def)
  have "set (hex_bytes bs) \<subseteq> L"
  proof (induction bs)
    case Nil
    then show ?case by (simp add: hex_bytes_def)
  next
    case (Cons b bs)
    have "unat b < 256" using unsigned_less [of b] by simp
    then have "unat b div 16 < 16" by simp
    then have "hexdigit (unat b div 16) \<in> L" by (rule digit)
    moreover have "hexdigit (unat b mod 16) \<in> L" by (rule digit) simp
    ultimately show ?case using Cons.IH by (simp add: hex_bytes_Cons)
  qed
  then show ?thesis by (simp only: L_def)
qed

text \<open>
  Two tokens are equal exactly when the two digests are, and different salts
  give different strings to digest.  Whether two different salts give
  different tokens for an address is therefore the question whether the digest
  tells the two salted strings apart.  That is a property of the platform's
  SHA-256 and not of this code, and it is left open here (claim C8): a digest
  of a fixed length cannot tell all salts apart, and no two strings on which
  SHA-256 agrees are known.
\<close>

lemma sha256Hex_eq_iff:
  "(sha256Hex digest e1 a = sha256Hex digest e2 b)
     = (digest (salt_of e1 @ '':'' @ a) = digest (salt_of e2 @ '':'' @ b))"
  by (auto simp: sha256Hex_def dest: hex_bytes_inj)

lemma salted_strings_differ:
  "salt_of e1 \<noteq> salt_of e2 \<Longrightarrow> salt_of e1 @ '':'' @ a \<noteq> salt_of e2 @ '':'' @ a"
  by simp

lemma finite_digests: "finite {xs :: 8 word list. length xs = 32}"
  using finite_lists_length_eq [of "UNIV :: 8 word set" 32] by simp

lemma fixed_length_digest_collides:
  assumes len: "\<And>x. length (digest x) = 32"
  shows "\<exists>s1 s2. s1 \<noteq> s2 \<and>
           sha256Hex digest (e\<lparr>IP_HASH_SALT := Some s1\<rparr>) a
             = sha256Hex digest (e\<lparr>IP_HASH_SALT := Some s2\<rparr>) a"
proof (rule ccontr)
  assume no: "\<not> (\<exists>s1 s2. s1 \<noteq> s2 \<and>
           sha256Hex digest (e\<lparr>IP_HASH_SALT := Some s1\<rparr>) a
             = sha256Hex digest (e\<lparr>IP_HASH_SALT := Some s2\<rparr>) a)"
  let ?f = "\<lambda>s. digest (s @ '':'' @ a)"
  have "inj ?f"
  proof (rule injI)
    fix s1 s2 assume "?f s1 = ?f s2"
    then have "sha256Hex digest (e\<lparr>IP_HASH_SALT := Some s1\<rparr>) a
                = sha256Hex digest (e\<lparr>IP_HASH_SALT := Some s2\<rparr>) a"
      by (simp add: sha256Hex_def salt_of_def)
    with no show "s1 = s2" by blast
  qed
  moreover have "range ?f \<subseteq> {xs. length xs = 32}" using len by auto
  then have "finite (range ?f)" using finite_digests by (rule finite_subset)
  ultimately have "finite (UNIV :: string set)" by (rule finite_imageD [rotated])
  then show False by (simp add: infinite_UNIV_listI)
qed

subsection \<open>Debounce\<close>

lemma d1_post_past_debounce:
  assumes "d1_post digest e s r = (resp, s')"
    and "resp = RateLimitExceeded \<or> (\<exists>n. resp = Success n)"
  shows "isValidSlug (req_slug r) \<and>
         lastRequestTime s' = (lastRequestTime s)(debounceKey digest e r \<mapsto> req_now r)"
  using assms
  by (auto simp: d1_post_def Let_def batch_def split: if_splits option.splits prod.splits)

lemma d1_post_too_fast:
  assumes "isValidSlug (req_slug r)"
    and "req_origin r = Some origin" "origin \<noteq> []" "origin \<in> getAllowedOrigins (ALLOWED_ORIGINS e)"
    and "lastRequestTime s (debounceKey digest e r) = Some t" "req_now r - t < 500"
  shows "d1_post digest e s r = (TooFast, s)"
  using assms
  by (simp add: d1_post_def Let_def lastTime_of_def DEBOUNCE_MS_def)

text \<open>
  Claim C7.  When a request with some client token for some resource has passed
  the debounce (it was accepted, or went on to the rate limiter and was
  rejected there), a request with the same client token for the same resource
  less than 500 milliseconds later, from an allowed origin, is answered "too
  fast", and the state it leaves is the state it found: no table, no debounce
  entry and no call on the store is added.
\<close>

theorem debounce_rejects_within_500ms:
  assumes "d1_post digest e s r1 = (resp1, s1)"
    and "resp1 = RateLimitExceeded \<or> (\<exists>n. resp1 = Success n)"
    and "req_slug r2 = req_slug r1"
    and "sha256Hex digest e (getClientIp (req_ip r2)) = sha256Hex digest e (getClientIp (req_ip r1))"
    and "req_origin r2 = Some origin" "origin \<noteq> []" "origin \<in> getAllowedOrigins (ALLOWED_ORIGINS e)"
    and "req_now r2 - req_now r1 < 500"
  shows "d1_post digest e s1 r2 = (TooFast, s1)"
proof -
  from d1_post_past_debounce [OF assms(1,2)]
  have v: "isValidSlug (req_slug r1)"
    and l: "lastRequestTime s1 = (lastRequestTime s)(debounceKey digest e r1 \<mapsto> req_now r1)"
    by simp_all
  have k: "debounceKey digest e r2 = debounceKey digest e r1"
    using assms(3,4) by (simp add: debounceKey_def)
  show ?thesis
  proof (rule d1_post_too_fast)
    show "isValidSlug (req_slug r2)" using v assms(3) by simp
    show "lastRequestTime s1 (debounceKey digest e r2) = Some (req_now r1)" by (simp add: l k)
  qed (fact assms)+
qed

text \<open>Ten claps at time 1000 are accepted; the same client asks again for the
  same post 300 milliseconds later.\<close>

theorem debounce_rejects_within_500ms_witness:
  "fst (d1_post (\<lambda>x. []) env0 d1_empty (post_at 1000)) = Success 10 \<and>
   d1_post (\<lambda>x. []) env0 (snd (d1_post (\<lambda>x. []) env0 d1_empty (post_at 1000))) (post_at 1300)
     = (TooFast, snd (d1_post (\<lambda>x. []) env0 d1_empty (post_at 1000)))"
proof (rule conjI)
  show accepted: "fst (d1_post (\<lambda>x. []) env0 d1_empty (post_at 1000)) = Success 10"
    by (simp add: d1_eval)
  then have first: "d1_post (\<lambda>x. []) env0 d1_empty (post_at 1000)
      = (Success 10, snd (d1_post (\<lambda>x. []) env0 d1_empty (post_at 1000)))"
    by (simp add: prod_eq_iff)
  show "d1_post (\<lambda>x. []) env0 (snd (d1_post (\<lambda>x. []) env0 d1_empty (post_at 1000))) (post_at 1300)
     = (TooFast, snd (d1_post (\<lambda>x. []) env0 d1_empty (post_at 1000)))"
    by (rule debounce_rejects_within_500ms [OF first, where origin = "''https://b.dev''"])
      (simp_all add: post_at_simps env0_simps origin_allowed0)
qed

end
